theory Spec2Isabelle
  imports Main
begin

section \<open>Data model of the Agent component (src/components/Agent.tsx)\<close>

text \<open>The enum \<open>CallStatus\<close> of the component.\<close>

datatype CallStatus = INACTIVE | CONNECTING | ACTIVE | FINISHED

text \<open>The role union \<open>"user" | "system" | "assistant"\<close> of \<open>SavedMessage\<close>.\<close>

datatype Role = User | System | Assistant

text \<open>The interface \<open>SavedMessage\<close>.\<close>

record SavedMessage =
  role :: Role
  content :: string

text \<open>
  Modelled from the spec: the transport's \<open>Message\<close> type is declared outside the
  source files at hand; the spec gives a message event the fields
  \<open>{type, role, transcript, transcriptType}\<close>. The fields \<open>type\<close> and \<open>role\<close> are
  written \<open>m_type\<close> and \<open>m_role\<close> here.
\<close>

record Message =
  m_type :: string
  m_role :: Role
  transcript :: string
  transcriptType :: string

text \<open>
  Modelled from the spec: the props type \<open>AgentProps\<close> is declared outside the source
  files at hand; the component destructures
  \<open>{userName, userId, interviewId, feedbackId, type, questions}\<close> and the spec marks
  \<open>interviewId\<close>, \<open>feedbackId\<close> and \<open>questions\<close> optional. An optional value is an
  \<open>option\<close>, \<open>None\<close> standing for \<open>undefined\<close>. The prop \<open>type\<close> is a string, compared
  with \<open>"generate"\<close> by the code.
\<close>

record AgentProps =
  userName :: string
  userId :: "string option"
  interviewId :: "string option"
  feedbackId :: "string option"
  type :: string
  questions :: "string list option"

text \<open>The argument object of \<open>createFeedback\<close>, as \<open>handleGenerateFeedback\<close> builds it.\<close>

record CreateFeedbackParams =
  p_interviewId :: "string option"
  p_userId :: "string option"
  p_transcript :: "SavedMessage list"
  p_feedbackId :: "string option"

text \<open>
  What \<open>createFeedback\<close> returns: \<open>{ success: true, feedbackId: ... }\<close> or
  \<open>{ success: false }\<close>.
\<close>

record FeedbackResult =
  success :: bool
  r_feedbackId :: "string option"

text \<open>
  JavaScript truthiness of an optional string, as tested by \<open>if (feedbackId)\<close> and
  \<open>success && id\<close>: \<open>undefined\<close> and the empty string are falsy, every other string
  is truthy.
\<close>

fun truthy :: "string option \<Rightarrow> bool" where
  "truthy None = False"
| "truthy (Some s) = (s \<noteq> [])"

text \<open>A template literal renders \<open>undefined\<close> as the text \<open>undefined\<close>.\<close>

fun template :: "string option \<Rightarrow> string" where
  "template None = ''undefined''"
| "template (Some s) = s"

subsection \<open>The outside world the component talks to\<close>

text \<open>
  The first argument of \<open>vapi.start\<close>: the workflow identifier read from the
  environment variable, or the \<open>interviewer\<close> assistant configuration of
  src/constants/index.ts. Both are opaque values here.
\<close>

datatype StartTarget = NEXT_PUBLIC_VAPI_WORKFLOW_ID | interviewer

text \<open>
  The calls the component makes on its collaborators, in the order it makes them:
  \<open>vapi.start(target, {variableValues})\<close>, \<open>vapi.stop()\<close>, \<open>router.push(path)\<close>,
  \<open>createFeedback(params)\<close> and \<open>console.log(text)\<close>.
\<close>

datatype Call =
    VapiStart StartTarget "(string \<times> string option) list"
  | VapiStop
  | RouterPush string
  | CreateFeedback CreateFeedbackParams
  | ConsoleLog string

text \<open>The six closures the first effect creates and registers.\<close>

datatype Handler = onCallStart | onCallEnd | onMessage | onSpeechStart | onSpeechEnd | onError

text \<open>The events the transport emits, with their payload.\<close>

datatype VapiEvent =
    CallStart | CallEnd | MessageEvent Message | SpeechStart | SpeechEnd | ErrorEvent string

fun eventName :: "VapiEvent \<Rightarrow> string" where
  "eventName CallStart = ''call-start''"
| "eventName CallEnd = ''call-end''"
| "eventName (MessageEvent m) = ''message''"
| "eventName SpeechStart = ''speech-start''"
| "eventName SpeechEnd = ''speech-end''"
| "eventName (ErrorEvent e) = ''error''"

text \<open>
  The component's four \<open>useState\<close> cells, together with what it shares with its
  collaborators: the transport's listener table (\<open>vapi.on\<close> appends an entry,
  \<open>vapi.off\<close> removes one), whether the component is mounted, the number of
  \<open>createFeedback\<close> calls still awaited, and the log of calls made so far.
\<close>

record Agent =
  callStatus :: CallStatus
  messages :: "SavedMessage list"
  isSpeaking :: bool
  lastMessage :: string
  listeners :: "(string \<times> Handler) list"
  mounted :: bool
  pending :: nat
  calls :: "Call list"

definition vapi_on :: "string \<Rightarrow> Handler \<Rightarrow> Agent \<Rightarrow> Agent" where
  "vapi_on name h s = s\<lparr>listeners := listeners s @ [(name, h)]\<rparr>"

definition vapi_off :: "string \<Rightarrow> Handler \<Rightarrow> Agent \<Rightarrow> Agent" where
  "vapi_off name h s = s\<lparr>listeners := remove1 (name, h) (listeners s)\<rparr>"

definition call :: "Call \<Rightarrow> Agent \<Rightarrow> Agent" where
  "call c s = s\<lparr>calls := calls s @ [c]\<rparr>"

section \<open>The component\<close>

text \<open>The values of the \<open>useState\<close> cells at the first render, before any effect.\<close>

definition initial :: Agent where
  "initial = \<lparr>callStatus = INACTIVE, messages = [], isSpeaking = False, lastMessage = [],
     listeners = [], mounted = False, pending = 0, calls = []\<rparr>"

subsection \<open>First effect: the event listeners\<close>

text \<open>The body of \<open>onMessage\<close>: only a final transcript is kept.\<close>

definition isFinalTranscript :: "Message \<Rightarrow> bool" where
  "isFinalTranscript m = (m_type m = ''transcript'' \<and> transcriptType m = ''final'')"

definition newMessage :: "Message \<Rightarrow> SavedMessage" where
  "newMessage m = \<lparr>role = m_role m, content = transcript m\<rparr>"

text \<open>
  Running one registered closure on an event. A closure only ever receives the events
  of the name it was registered under; on any other event it does nothing.
\<close>

fun runHandler :: "Handler \<Rightarrow> VapiEvent \<Rightarrow> Agent \<Rightarrow> Agent" where
  "runHandler onCallStart e s = s\<lparr>callStatus := ACTIVE\<rparr>"
| "runHandler onCallEnd e s = s\<lparr>callStatus := FINISHED\<rparr>"
| "runHandler onMessage (MessageEvent m) s =
     (if isFinalTranscript m then s\<lparr>messages := messages s @ [newMessage m]\<rparr> else s)"
| "runHandler onMessage e s = s"
| "runHandler onSpeechStart e s = (call (ConsoleLog ''speech start'') s)\<lparr>isSpeaking := True\<rparr>"
| "runHandler onSpeechEnd e s = (call (ConsoleLog ''speech end'') s)\<lparr>isSpeaking := False\<rparr>"
| "runHandler onError (ErrorEvent e) s = call (ConsoleLog (''Error: '' @ e)) s"
| "runHandler onError e s = s"

text \<open>The six \<open>vapi.on\<close> calls of the effect, and the six \<open>vapi.off\<close> calls of its cleanup.\<close>

definition subscribe :: "Agent \<Rightarrow> Agent" where
  "subscribe s =
     vapi_on ''error'' onError
       (vapi_on ''speech-end'' onSpeechEnd
         (vapi_on ''speech-start'' onSpeechStart
           (vapi_on ''message'' onMessage
             (vapi_on ''call-end'' onCallEnd
               (vapi_on ''call-start'' onCallStart s)))))"

definition cleanup :: "Agent \<Rightarrow> Agent" where
  "cleanup s =
     vapi_off ''error'' onError
       (vapi_off ''speech-end'' onSpeechEnd
         (vapi_off ''speech-start'' onSpeechStart
           (vapi_off ''message'' onMessage
             (vapi_off ''call-end'' onCallEnd
               (vapi_off ''call-start'' onCallStart s)))))"

text \<open>
  The transport emitting an event: every closure registered under the event's name is
  run, in registration order.
\<close>

fun dispatch :: "(string \<times> Handler) list \<Rightarrow> VapiEvent \<Rightarrow> Agent \<Rightarrow> Agent" where
  "dispatch [] e s = s"
| "dispatch ((name, h) # ls) e s =
     dispatch ls e (if name = eventName e then runHandler h e s else s)"

definition emit :: "VapiEvent \<Rightarrow> Agent \<Rightarrow> Agent" where
  "emit e s = dispatch (listeners s) e s"

subsection \<open>Second effect: last message and call completion\<close>

definition feedbackPath :: "AgentProps \<Rightarrow> string" where
  "feedbackPath p = ''/interview/'' @ template (interviewId p) @ ''/feedback''"

text \<open>
  \<open>handleGenerateFeedback\<close> up to its \<open>await\<close>: the log line and the call of
  \<open>createFeedback\<close>, whose result is awaited.
\<close>

definition handleGenerateFeedback :: "AgentProps \<Rightarrow> SavedMessage list \<Rightarrow> Agent \<Rightarrow> Agent" where
  "handleGenerateFeedback p msgs s =
     (call (CreateFeedback \<lparr>p_interviewId = interviewId p, p_userId = userId p,
                             p_transcript = msgs, p_feedbackId = feedbackId p\<rparr>)
        (call (ConsoleLog ''handleGenerateFeedback'') s))\<lparr>pending := Suc (pending s)\<rparr>"

text \<open>
  \<open>handleGenerateFeedback\<close> after its \<open>await\<close>, with the result \<open>r\<close> of the gateway:
  the navigation chosen by \<open>success && id\<close>.
\<close>

definition feedbackDone :: "AgentProps \<Rightarrow> FeedbackResult \<Rightarrow> Agent \<Rightarrow> Agent" where
  "feedbackDone p r s =
     (if success r \<and> truthy (r_feedbackId r)
      then call (RouterPush (feedbackPath p)) s
      else call (RouterPush ''/'') (call (ConsoleLog ''Error saving feedback'') s))"

text \<open>The body of the second effect.\<close>

definition completionEffect :: "AgentProps \<Rightarrow> Agent \<Rightarrow> Agent" where
  "completionEffect p s =
     (let s1 = (if length (messages s) > 0
                then s\<lparr>lastMessage := content (last (messages s))\<rparr> else s)
      in if callStatus s1 = FINISHED
         then (if type p = ''generate''
               then call (RouterPush ''/'') s1
               else handleGenerateFeedback p (messages s1) s1)
         else s1)"

text \<open>
  React runs the second effect again after a render in which one of its dependencies
  \<open>[messages, callStatus, feedbackId, interviewId, router, type, userId]\<close> differs from
  the previous render. The props and the router do not change during the life of the
  component; \<open>setMessages\<close> always installs a new, longer array; \<open>setCallStatus\<close> with
  the value already held changes nothing. \<open>old\<close> is the state before the handler ran,
  \<open>new\<close> the state it left.
\<close>

definition rerender :: "AgentProps \<Rightarrow> Agent \<Rightarrow> Agent \<Rightarrow> Agent" where
  "rerender p old new =
     (if callStatus new \<noteq> callStatus old \<or> messages new \<noteq> messages old
      then completionEffect p new else new)"

text \<open>
  Mounting: the first render, then both effects in order. The second effect finds
  \<open>INACTIVE\<close> and the empty transcript.
\<close>

definition mount :: "AgentProps \<Rightarrow> Agent" where
  "mount p = completionEffect p (subscribe (initial\<lparr>mounted := True\<rparr>))"

subsection \<open>The handlers of the call button\<close>

text \<open>
  \<open>Array.prototype.join\<close> on an array of strings, as the language defines it: the
  result starts empty, and for the element at index \<open>k\<close> the separator is appended
  first when \<open>k > 0\<close>, then the element.
\<close>

fun joinLoop :: "string \<Rightarrow> string list \<Rightarrow> nat \<Rightarrow> string \<Rightarrow> string" where
  "joinLoop sep [] k R = R"
| "joinLoop sep (x # xs) k R = joinLoop sep xs (Suc k) ((if k > 0 then R @ sep else R) @ x)"

definition join :: "string \<Rightarrow> string list \<Rightarrow> string" where
  "join sep xs = joinLoop sep xs 0 []"

text \<open>
  \<open>formattedQuestions\<close>: \<open>questions.map((question) => `- ${question}`).join("\n")\<close>
  under \<open>if (questions)\<close>. An array, even an empty one, is truthy; \<open>undefined\<close> is not.
\<close>

definition formattedQuestions :: "string list option \<Rightarrow> string" where
  "formattedQuestions qs =
     (case qs of None \<Rightarrow> []
      | Some list \<Rightarrow> join [CHR 0x0A] (map (\<lambda>question. ''- '' @ question) list))"

definition handleCall :: "AgentProps \<Rightarrow> Agent \<Rightarrow> Agent" where
  "handleCall p s =
     (let s1 = s\<lparr>callStatus := CONNECTING\<rparr>
      in if type p = ''generate''
         then call (VapiStart NEXT_PUBLIC_VAPI_WORKFLOW_ID
                      [(''username'', Some (userName p)), (''userid'', userId p)]) s1
         else call (VapiStart interviewer
                      [(''questions'', Some (formattedQuestions (questions p)))]) s1)"

definition handleDisconnect :: "Agent \<Rightarrow> Agent" where
  "handleDisconnect s = call VapiStop (s\<lparr>callStatus := FINISHED\<rparr>)"

text \<open>
  The rendered call button: while the status is not \<open>ACTIVE\<close> its \<open>onClick\<close> is
  \<open>handleCall\<close>, while it is \<open>ACTIVE\<close> the button is the End button and its \<open>onClick\<close>
  is \<open>handleDisconnect\<close>.
\<close>

definition onClick :: "AgentProps \<Rightarrow> Agent \<Rightarrow> Agent" where
  "onClick p s = (if callStatus s \<noteq> ACTIVE then handleCall p s else handleDisconnect s)"

subsection \<open>One event at a time\<close>

text \<open>
  Everything that can happen to a mounted component, one event per step: the exposed
  actions \<open>Start\<close> (\<open>handleCall\<close>) and \<open>Stop\<close> (\<open>handleDisconnect\<close>), a click on the
  rendered button, a transport event, the resolution of an awaited \<open>createFeedback\<close>
  call, and the unmounting of the component. After the handler React renders again
  and runs the second effect if its dependencies changed. An unmounted component
  renders no button, so the actions do nothing then; a transport event reaches the
  component through the listener table only. A \<open>step\<close> is a commit of its own: React
  renders after this one event. Events that React batches into one commit are the
  subject of \<open>commit\<close> below.
\<close>

datatype Event =
    Start | Stop | Click | Transport VapiEvent | Resolved FeedbackResult | Unmount

fun step :: "AgentProps \<Rightarrow> Event \<Rightarrow> Agent \<Rightarrow> Agent" where
  "step p Start s = (if mounted s then rerender p s (handleCall p s) else s)"
| "step p Stop s = (if mounted s then rerender p s (handleDisconnect s) else s)"
| "step p Click s = (if mounted s then rerender p s (onClick p s) else s)"
| "step p (Transport e) s = rerender p s (emit e s)"
| "step p (Resolved r) s =
     (if pending s > 0 then feedbackDone p r (s\<lparr>pending := pending s - 1\<rparr>) else s)"
| "step p Unmount s = (if mounted s then (cleanup s)\<lparr>mounted := False\<rparr> else s)"

fun run :: "AgentProps \<Rightarrow> Event list \<Rightarrow> Agent \<Rightarrow> Agent" where
  "run p [] s = s"
| "run p (e # es) s = run p es (step p e s)"

text \<open>The statuses a run passes through, the starting one first.\<close>

fun statuses :: "AgentProps \<Rightarrow> Event list \<Rightarrow> Agent \<Rightarrow> CallStatus list" where
  "statuses p [] s = [callStatus s]"
| "statuses p (e # es) s = callStatus s # statuses p es (step p e s)"

text \<open>
  React batches the state updates made before it renders: the handlers of several
  events may run, one after the other, before one commit, and the second effect is
  evaluated once per commit, against the state of the previous commit. While the
  batch runs, the button and its \<open>onClick\<close> are those of the previous render \<open>r\<close>;
  \<open>setMessages\<close> is given an updating function, so every append of the batch is kept,
  and of several \<open>setCallStatus\<close> calls the last one stands. A batch holds actions
  and transport events; a gateway resolution sets no state and unmounting ends the
  component, so both are steps of their own and do nothing inside a batch.
\<close>

fun handledIn :: "AgentProps \<Rightarrow> Agent \<Rightarrow> Event \<Rightarrow> Agent \<Rightarrow> Agent" where
  "handledIn p r Start h = (if mounted r then handleCall p h else h)"
| "handledIn p r Stop h = (if mounted r then handleDisconnect h else h)"
| "handledIn p r Click h =
     (if mounted r
      then (if callStatus r \<noteq> ACTIVE then handleCall p h else handleDisconnect h)
      else h)"
| "handledIn p r (Transport e) h = emit e h"
| "handledIn p r e h = h"

fun handledBatch :: "AgentProps \<Rightarrow> Agent \<Rightarrow> Event list \<Rightarrow> Agent \<Rightarrow> Agent" where
  "handledBatch p r [] h = h"
| "handledBatch p r (e # es) h = handledBatch p r es (handledIn p r e h)"

definition commit :: "AgentProps \<Rightarrow> Event list \<Rightarrow> Agent \<Rightarrow> Agent" where
  "commit p es s = rerender p s (handledBatch p s es s)"

text \<open>The position of a status on the line Idle, Connecting, Active, Finished.\<close>

fun rank :: "CallStatus \<Rightarrow> nat" where
  "rank INACTIVE = 0"
| "rank CONNECTING = 1"
| "rank ACTIVE = 2"
| "rank FINISHED = 3"

section \<open>The feedback gateway: createFeedback (lib/actions/general.action.ts)\<close>

text \<open>
  The document written to the \<open>feedback\<close> collection. The object the language model
  returns for the feedback schema (total score, category scores, strengths, areas for
  improvement, final assessment) is copied into the document field by field; its type
  is the parameter \<open>'o\<close>.
\<close>

record 'o Feedback =
  f_interviewId :: "string option"
  f_userId :: "string option"
  f_object :: 'o
  createdAt :: string

text \<open>
  What the external services answer during one call of \<open>createFeedback\<close>:
  \<open>generateObject\<close> maps the transcript text of the prompt to the generated object,
  \<open>None\<close> when it throws; \<open>toISOString\<close> is the clock's reading; \<open>autoId\<close> is the
  identifier the store generates for \<open>doc()\<close>; \<open>setThrows\<close> tells whether writing the
  document at the given path throws.
\<close>

record 'o Services =
  generateObject :: "string \<Rightarrow> 'o option"
  toISOString :: string
  autoId :: string
  setThrows :: "string list \<Rightarrow> 'o Feedback \<Rightarrow> bool"

fun roleText :: "Role \<Rightarrow> string" where
  "roleText User = ''user''"
| "roleText System = ''system''"
| "roleText Assistant = ''assistant''"

text \<open>\<open>transcript.map((sentence) => `- ${sentence.role}: ${sentence.content}\n`).join("")\<close>\<close>

definition formattedTranscript :: "SavedMessage list \<Rightarrow> string" where
  "formattedTranscript ts =
     join [] (map (\<lambda>sentence. ''- '' @ roleText (role sentence) @ '': '' @ content sentence
                                @ [CHR 0x0A]) ts)"

text \<open>
  The document store's client library is outside the repository. What
  \<open>db.collection("feedback").doc(documentPath)\<close> does with its argument is modelled
  after the library: the argument is a path relative to the collection. It must be a
  non-empty string without \<open>//\<close>; it is split at every \<open>/\<close> and the empty segments
  (a leading or trailing slash) are dropped; \<open>feedback\<close> followed by the segments must
  name a document, that is, have an even number of components, or the call throws.
  The reference's \<open>id\<close> is the last segment.
\<close>

text \<open>\<open>String.prototype.split\<close> at a separator character.\<close>

fun splitAt :: "char \<Rightarrow> string \<Rightarrow> string list" where
  "splitAt c [] = [[]]"
| "splitAt c (x # xs) =
     (if x = c then [] # splitAt c xs
      else (case splitAt c xs of [] \<Rightarrow> [[x]] | seg # segs \<Rightarrow> (x # seg) # segs))"

fun hasDoubleSlash :: "string \<Rightarrow> bool" where
  "hasDoubleSlash (a # b # xs) = ((a = CHR ''/'' \<and> b = CHR ''/'') \<or> hasDoubleSlash (b # xs))"
| "hasDoubleSlash xs = False"

text \<open>
  \<open>collectionDoc documentPath\<close>: the segments below the \<open>feedback\<close> collection of the
  document that \<open>doc(documentPath)\<close> refers to, \<open>None\<close> when the call throws.
\<close>

definition collectionDoc :: "string \<Rightarrow> string list option" where
  "collectionDoc documentPath =
     (if documentPath = [] \<or> hasDoubleSlash documentPath then None
      else (let segments = filter (\<lambda>segment. segment \<noteq> []) (splitAt CHR ''/'' documentPath)
            in if even (Suc (length segments)) then Some segments else None))"

text \<open>
  The store maps the path of a document below the \<open>feedback\<close> collection to the
  document. \<open>doc()\<close> refers to a new document of the collection under the generated
  identifier; \<open>set\<close> replaces the document at the reference's path; \<open>feedbackRef.id\<close>
  is the last segment of the path. Anything thrown inside the \<open>try\<close> block ends in
  the \<open>catch\<close> branch, which returns \<open>{ success: false }\<close> and leaves the store as it
  was.
\<close>

definition createFeedback ::
  "'o Services \<Rightarrow> CreateFeedbackParams \<Rightarrow> (string list \<rightharpoonup> 'o Feedback)
     \<Rightarrow> FeedbackResult \<times> (string list \<rightharpoonup> 'o Feedback)" where
  "createFeedback sv params db =
     (case generateObject sv (formattedTranscript (p_transcript params)) of
        None \<Rightarrow> (\<lparr>success = False, r_feedbackId = None\<rparr>, db)
      | Some object \<Rightarrow>
          (let feedback = \<lparr>f_interviewId = p_interviewId params, f_userId = p_userId params,
                             f_object = object, createdAt = toISOString sv\<rparr>;
               feedbackRef = (if truthy (p_feedbackId params)
                              then collectionDoc (the (p_feedbackId params))
                              else Some [autoId sv])
           in case feedbackRef of
                None \<Rightarrow> (\<lparr>success = False, r_feedbackId = None\<rparr>, db)
              | Some path \<Rightarrow>
                  if setThrows sv path feedback
                  then (\<lparr>success = False, r_feedbackId = None\<rparr>, db)
                  else (\<lparr>success = True, r_feedbackId = Some (last path)\<rparr>,
                        db(path \<mapsto> feedback))))"

section \<open>Vocabulary of the properties\<close>

text \<open>The component is subscribed when the listener table holds its six entries.\<close>

definition subscribed :: "Agent \<Rightarrow> bool" where
  "subscribed s = (listeners s =
     [(''call-start'', onCallStart), (''call-end'', onCallEnd), (''message'', onMessage),
      (''speech-start'', onSpeechStart), (''speech-end'', onSpeechEnd), (''error'', onError)])"

text \<open>The navigation signals among the calls made: the paths given to \<open>router.push\<close>.\<close>

fun navigations :: "Call list \<Rightarrow> string list" where
  "navigations [] = []"
| "navigations (RouterPush path # cs) = path # navigations cs"
| "navigations (c # cs) = navigations cs"

text \<open>The submissions to the feedback gateway among the calls made.\<close>

fun submissions :: "Call list \<Rightarrow> CreateFeedbackParams list" where
  "submissions [] = []"
| "submissions (CreateFeedback params # cs) = params # submissions cs"
| "submissions (c # cs) = submissions cs"

text \<open>The transport sessions opened among the calls made.\<close>

fun opened :: "Call list \<Rightarrow> Call list" where
  "opened [] = []"
| "opened (VapiStart target vars # cs) = VapiStart target vars # opened cs"
| "opened (c # cs) = opened cs"

text \<open>
  How often the termination side effect has fired: in Generate mode it is the push of
  the home path, in every other mode the submission to the feedback gateway.
\<close>

definition fired :: "AgentProps \<Rightarrow> Agent \<Rightarrow> nat" where
  "fired p s =
     (if type p = ''generate''
      then length (filter (\<lambda>path. path = ''/'') (navigations (calls s)))
      else length (submissions (calls s)))"

text \<open>
  The questions variable in the spec's words: each element prefixed with \<open>"- "\<close>, the
  elements separated by newlines, the empty string when there are none.
\<close>

fun bulleted :: "string list \<Rightarrow> string" where
  "bulleted [] = []"
| "bulleted (q # qs) = (''- '' @ q) @ concat (map (\<lambda>q'. [CHR 0x0A] @ ''- '' @ q') qs)"

text \<open>Two sets of props for concrete runs: a Review session and a Generate session.\<close>

definition reviewProps :: AgentProps where
  "reviewProps = \<lparr>userName = ''Ada'', userId = Some ''u1'', interviewId = Some ''i7'',
     feedbackId = None, type = ''interview'',
     questions = Some [''Tell me about yourself'', ''Why this role?'']\<rparr>"

definition generateProps :: AgentProps where
  "generateProps = \<lparr>userName = ''Ada'', userId = Some ''u1'', interviewId = None,
     feedbackId = None, type = ''generate'', questions = None\<rparr>"

text \<open>A final transcript message, and an interim one.\<close>

definition finalHi :: Message where
  "finalHi = \<lparr>m_type = ''transcript'', m_role = User, transcript = ''Hi'',
     transcriptType = ''final''\<rparr>"

definition partialHi :: Message where
  "partialHi = \<lparr>m_type = ''transcript'', m_role = User, transcript = ''H'',
     transcriptType = ''partial''\<rparr>"

text \<open>The transcript messages among the events of a run, in arrival order.\<close>

fun received :: "Event list \<Rightarrow> Message list" where
  "received [] = []"
| "received (Transport (MessageEvent m) # es) = m # received es"
| "received (e # es) = received es"

definition finalHello :: Message where
  "finalHello = \<lparr>m_type = ''transcript'', m_role = Assistant, transcript = ''Hello'',
     transcriptType = ''final''\<rparr>"

text \<open>
  A component is either mounted and subscribed, or unmounted with nothing left in the
  listener table.
\<close>

definition consistent :: "Agent \<Rightarrow> bool" where
  "consistent s = (if mounted s then subscribed s else listeners s = [])"

text \<open>
  A state \<open>h\<close> differs quietly from \<open>s\<close> when no navigation and no submission was
  added and no awaited call was added or resolved.
\<close>

definition quiet :: "Agent \<Rightarrow> Agent \<Rightarrow> bool" where
  "quiet s h = (navigations (calls h) = navigations (calls s)
               \<and> submissions (calls h) = submissions (calls s) \<and> pending h = pending s)"

text \<open>The state a handler leaves, before React renders again.\<close>

fun handled :: "AgentProps \<Rightarrow> Event \<Rightarrow> Agent \<Rightarrow> Agent" where
  "handled p Start s = (if mounted s then handleCall p s else s)"
| "handled p Stop s = (if mounted s then handleDisconnect s else s)"
| "handled p Click s = (if mounted s then onClick p s else s)"
| "handled p (Transport e) s = emit e s"
| "handled p e s = s"

text \<open>Services that answer every call: for concrete runs of \<open>createFeedback\<close>.\<close>

definition healthy :: "unit Services" where
  "healthy = \<lparr>generateObject = (\<lambda>prompt. Some ()), toISOString = ''2026-01-01T00:00:00.000Z'',
     autoId = ''auto1'', setThrows = (\<lambda>path doc. False)\<rparr>"

section \<open>What the effects and handlers leave alone\<close>

lemma completionEffect_frame:
  "callStatus (completionEffect p s) = callStatus s"
  "messages (completionEffect p s) = messages s"
  "listeners (completionEffect p s) = listeners s"
  "mounted (completionEffect p s) = mounted s"
  "isSpeaking (completionEffect p s) = isSpeaking s"
  by (simp_all add: completionEffect_def handleGenerateFeedback_def call_def Let_def)

lemma rerender_frame:
  "callStatus (rerender p old new) = callStatus new"
  "messages (rerender p old new) = messages new"
  "listeners (rerender p old new) = listeners new"
  "mounted (rerender p old new) = mounted new"
  "isSpeaking (rerender p old new) = isSpeaking new"
  by (simp_all add: rerender_def completionEffect_frame)

lemma rerender_same:
  "callStatus new = callStatus old \<Longrightarrow> messages new = messages old \<Longrightarrow> rerender p old new = new"
  by (simp add: rerender_def)

lemma runHandler_listeners: "listeners (runHandler h e s) = listeners s"
  by (cases "(h, e, s)" rule: runHandler.cases) (simp_all add: call_def)

lemma dispatch_listeners: "listeners (dispatch ls e s) = listeners s"
  by (induction ls arbitrary: s) (auto simp: runHandler_listeners)

lemma runHandler_mounted: "mounted (runHandler h e s) = mounted s"
  by (cases "(h, e, s)" rule: runHandler.cases) (simp_all add: call_def)

lemma dispatch_mounted: "mounted (dispatch ls e s) = mounted s"
proof (induction ls arbitrary: s)
  case Nil
  show ?case by simp
next
  case (Cons a ls)
  obtain name h where a: "a = (name, h)" by (cases a)
  show ?case unfolding a dispatch.simps Cons.IH
    by (simp add: runHandler_mounted)
qed

lemma handler_frame:
  "listeners (handleCall p s) = listeners s"
  "mounted (handleCall p s) = mounted s"
  "messages (handleCall p s) = messages s"
  "listeners (handleDisconnect s) = listeners s"
  "mounted (handleDisconnect s) = mounted s"
  "messages (handleDisconnect s) = messages s"
  "listeners (onClick p s) = listeners s"
  "mounted (onClick p s) = mounted s"
  "messages (onClick p s) = messages s"
  "listeners (feedbackDone p r s) = listeners s"
  "mounted (feedbackDone p r s) = mounted s"
  "messages (feedbackDone p r s) = messages s"
  "callStatus (feedbackDone p r s) = callStatus s"
  by (simp_all add: handleCall_def handleDisconnect_def onClick_def feedbackDone_def
        call_def Let_def)

section \<open>Subscription\<close>

lemma mount_subscribed: "subscribed (mount p)"
  by (simp add: mount_def subscribed_def completionEffect_frame subscribe_def vapi_on_def
        initial_def)

lemma mount_mounted: "mounted (mount p)"
  by (simp add: mount_def completionEffect_frame subscribe_def vapi_on_def initial_def)

lemma cleanup_listeners: "subscribed s \<Longrightarrow> listeners (cleanup s) = []"
  by (simp add: subscribed_def cleanup_def vapi_off_def)

lemma emit_subscribed:
  assumes "subscribed s"
  shows "emit CallStart s = s\<lparr>callStatus := ACTIVE\<rparr>"
    and "emit CallEnd s = s\<lparr>callStatus := FINISHED\<rparr>"
    and "emit (MessageEvent m) s =
           (if isFinalTranscript m then s\<lparr>messages := messages s @ [newMessage m]\<rparr> else s)"
    and "emit SpeechStart s = (call (ConsoleLog ''speech start'') s)\<lparr>isSpeaking := True\<rparr>"
    and "emit SpeechEnd s = (call (ConsoleLog ''speech end'') s)\<lparr>isSpeaking := False\<rparr>"
    and "emit (ErrorEvent x) s = call (ConsoleLog (''Error: '' @ x)) s"
  using assms by (simp_all add: emit_def subscribed_def)

lemma emit_unsubscribed: "listeners s = [] \<Longrightarrow> emit e s = s"
  by (simp add: emit_def)

lemma step_listeners: "e \<noteq> Unmount \<Longrightarrow> listeners (step p e s) = listeners s"
  by (cases e)
     (simp_all add: rerender_frame handler_frame emit_def dispatch_listeners)

lemma step_subscribed: "e \<noteq> Unmount \<Longrightarrow> subscribed s \<Longrightarrow> subscribed (step p e s)"
  by (simp add: subscribed_def step_listeners)

lemma run_subscribed: "Unmount \<notin> set es \<Longrightarrow> subscribed s \<Longrightarrow> subscribed (run p es s)"
proof (induction es arbitrary: s)
  case Nil
  then show ?case by simp
next
  case (Cons e es)
  from Cons.prems have "e \<noteq> Unmount" and rest: "Unmount \<notin> set es" by auto
  with Cons.prems have "subscribed (step p e s)" by (simp add: step_subscribed)
  with rest show ?case by (simp add: Cons.IH)
qed

lemma step_mounted: "e \<noteq> Unmount \<Longrightarrow> mounted (step p e s) = mounted s"
  by (cases e)
     (simp_all add: rerender_frame handler_frame emit_def dispatch_mounted)

lemma step_consistent: "consistent s \<Longrightarrow> consistent (step p e s)"
proof (cases "e = Unmount")
  case True
  assume "consistent s"
  then show ?thesis unfolding True
    by (simp add: consistent_def cleanup_listeners split: if_splits)
next
  case False
  assume "consistent s"
  then show ?thesis
    by (cases "mounted s")
       (simp_all add: consistent_def subscribed_def step_mounted [OF False]
          step_listeners [OF False])
qed

lemma run_consistent: "consistent s \<Longrightarrow> consistent (run p es s)"
  by (induction es arbitrary: s) (simp_all add: step_consistent)

lemma mount_consistent: "consistent (mount p)"
  by (simp add: consistent_def mount_subscribed mount_mounted)

lemma unmount_listeners: "consistent s \<Longrightarrow> listeners (step p Unmount s) = []"
  by (simp add: consistent_def cleanup_listeners split: if_splits)

lemma transport_unsubscribed: "listeners s = [] \<Longrightarrow> run p (map Transport ts) s = s"
  by (induction ts) (simp_all add: emit_unsubscribed rerender_same)

lemma mount_state:
  "callStatus (mount p) = INACTIVE" "messages (mount p) = []" "calls (mount p) = []"
  "pending (mount p) = 0"
  by (simp_all add: mount_def completionEffect_def subscribe_def vapi_on_def initial_def)

text \<open>
  C8. Mounting subscribes the six handlers (call-start, call-end, message,
  speech-start, speech-end, error). Whatever happened before, and so in whatever status
  the session is, unmounting leaves no entry in the transport's listener table, and
  after it no sequence of transport events changes anything of the component's state.
\<close>

theorem teardown_removes_every_subscription:
  "listeners (mount p) =
     [(''call-start'', onCallStart), (''call-end'', onCallEnd), (''message'', onMessage),
      (''speech-start'', onSpeechStart), (''speech-end'', onSpeechEnd), (''error'', onError)]
   \<and> listeners (step p Unmount (run p es (mount p))) = []
   \<and> run p (map Transport ts) (step p Unmount (run p es (mount p)))
       = step p Unmount (run p es (mount p))"
proof -
  have c: "consistent (run p es (mount p))"
    by (rule run_consistent) (rule mount_consistent)
  have l: "listeners (step p Unmount (run p es (mount p))) = []"
    using c by (rule unmount_listeners)
  show ?thesis
    using mount_subscribed [of p] l transport_unsubscribed [OF l]
    by (simp add: subscribed_def)
qed

theorem teardown_removes_every_subscription_witness:
  "listeners (step reviewProps Unmount
      (run reviewProps [Click, Transport CallStart, Click] (mount reviewProps))) = []
   \<and> run reviewProps (map Transport [CallStart, MessageEvent finalHi, SpeechStart])
        (step reviewProps Unmount
           (run reviewProps [Click, Transport CallStart, Click] (mount reviewProps)))
       = step reviewProps Unmount
           (run reviewProps [Click, Transport CallStart, Click] (mount reviewProps))"
  using teardown_removes_every_subscription
          [of reviewProps "[Click, Transport CallStart, Click]"
              "[CallStart, MessageEvent finalHi, SpeechStart]"]
  by simp

section \<open>Speaking indicator\<close>

text \<open>
  C9. On a subscribed component the speech-start event sets \<open>isSpeaking\<close> to true and
  the speech-end event sets it to false. Besides the flag only the console log grows:
  the status, the transcript and every other part of the state stay as they were.
\<close>

theorem speech_events_only_set_isSpeaking:
  assumes "subscribed s"
  shows "step p (Transport SpeechStart) s =
           s\<lparr>isSpeaking := True, calls := calls s @ [ConsoleLog ''speech start'']\<rparr>
       \<and> step p (Transport SpeechEnd) s =
           s\<lparr>isSpeaking := False, calls := calls s @ [ConsoleLog ''speech end'']\<rparr>
       \<and> callStatus (step p (Transport SpeechStart) s) = callStatus s
       \<and> messages (step p (Transport SpeechStart) s) = messages s
       \<and> callStatus (step p (Transport SpeechEnd) s) = callStatus s
       \<and> messages (step p (Transport SpeechEnd) s) = messages s"
  using assms by (simp add: emit_subscribed rerender_def call_def)

theorem speech_events_only_set_isSpeaking_witness:
  "subscribed (mount reviewProps)
   \<and> isSpeaking (step reviewProps (Transport SpeechStart) (mount reviewProps))
   \<and> \<not> isSpeaking (step reviewProps (Transport SpeechEnd)
         (step reviewProps (Transport SpeechStart) (mount reviewProps)))
   \<and> callStatus (step reviewProps (Transport SpeechStart) (mount reviewProps)) = INACTIVE
   \<and> messages (step reviewProps (Transport SpeechStart) (mount reviewProps)) = []"
proof -
  have sub: "subscribed (mount reviewProps)" by (rule mount_subscribed)
  have sub2: "subscribed (step reviewProps (Transport SpeechStart) (mount reviewProps))"
    by (rule step_subscribed) (simp, rule sub)
  from speech_events_only_set_isSpeaking [OF sub, of reviewProps]
       speech_events_only_set_isSpeaking [OF sub2, of reviewProps] sub mount_state
  show ?thesis by simp
qed

section \<open>Transcript ingestion\<close>

lemma step_messages:
  assumes "subscribed s"
  shows "messages (step p e s) =
           messages s @ map newMessage (filter isFinalTranscript (received [e]))"
proof (cases e)
  case (Transport v)
  then show ?thesis using assms
    by (cases v) (simp_all add: rerender_frame emit_subscribed call_def)
qed (simp_all add: rerender_frame handler_frame cleanup_def vapi_off_def)

lemma received_Cons: "received (e # es) = received [e] @ received es"
  by (cases "e # es" rule: received.cases) simp_all

text \<open>
  C3. While the component is subscribed, the transcript after any sequence of actions
  and transport events is the transcript before it followed by one utterance for each
  message event of type "transcript" and transcriptType "final", in arrival order, with
  the event's role and text; every other message event, and every other event, appends
  nothing.
\<close>

theorem transcript_is_final_messages_in_order:
  assumes "subscribed s" and "Unmount \<notin> set es"
  shows "messages (run p es s) =
           messages s @ map newMessage (filter isFinalTranscript (received es))"
  using assms
proof (induction es arbitrary: s)
  case Nil
  then show ?case by simp
next
  case (Cons e es)
  from Cons.prems have ne: "e \<noteq> Unmount" and rest: "Unmount \<notin> set es" by auto
  have sub: "subscribed (step p e s)" using ne Cons.prems(1) by (rule step_subscribed)
  have "messages (run p (e # es) s) = messages (run p es (step p e s))" by simp
  also have "\<dots> = messages (step p e s)
                 @ map newMessage (filter isFinalTranscript (received es))"
    using sub rest by (rule Cons.IH)
  also have "messages (step p e s) =
               messages s @ map newMessage (filter isFinalTranscript (received [e]))"
    using Cons.prems(1) by (rule step_messages)
  finally show ?case by (subst received_Cons) simp
qed

theorem transcript_is_final_messages_in_order_witness:
  "subscribed (mount reviewProps)
   \<and> Unmount \<notin> set [Transport (MessageEvent partialHi), Transport (MessageEvent finalHi),
                       Transport SpeechStart, Transport (MessageEvent finalHello)]
   \<and> messages (run reviewProps
         [Transport (MessageEvent partialHi), Transport (MessageEvent finalHi),
          Transport SpeechStart, Transport (MessageEvent finalHello)] (mount reviewProps))
       = [\<lparr>role = User, content = ''Hi''\<rparr>, \<lparr>role = Assistant, content = ''Hello''\<rparr>]"
proof -
  have sub: "subscribed (mount reviewProps)" by (rule mount_subscribed)
  have nu: "Unmount \<notin> set [Transport (MessageEvent partialHi),
      Transport (MessageEvent finalHi), Transport SpeechStart,
      Transport (MessageEvent finalHello)]" by simp
  from transcript_is_final_messages_in_order [OF sub nu, of reviewProps] sub nu
  show ?thesis
    by (simp add: mount_state isFinalTranscript_def newMessage_def partialHi_def finalHi_def
          finalHello_def)
qed

section \<open>Starting a call\<close>

lemma joinLoop_later: "k > 0 \<Longrightarrow> joinLoop sep xs k R = R @ concat (map (\<lambda>y. sep @ y) xs)"
  by (induction xs arbitrary: k R) simp_all

lemma join_Cons: "join sep (x # xs) = x @ concat (map (\<lambda>y. sep @ y) xs)"
  by (simp add: join_def joinLoop_later)

lemma join_Nil: "join sep [] = []"
  by (simp add: join_def)

lemma formattedQuestions_bulleted:
  "formattedQuestions qs = (case qs of None \<Rightarrow> [] | Some list \<Rightarrow> bulleted list)"
proof (cases qs)
  case None
  then show ?thesis by (simp add: formattedQuestions_def)
next
  case (Some list)
  then show ?thesis
    by (cases list) (simp_all add: formattedQuestions_def join_Nil join_Cons comp_def)
qed

lemma rerender_calls:
  "callStatus new \<noteq> FINISHED \<Longrightarrow> calls (rerender p old new) = calls new"
  by (simp add: rerender_def completionEffect_def)

lemma handleCall_status: "callStatus (handleCall p s) = CONNECTING"
  by (simp add: handleCall_def call_def Let_def)

text \<open>
  C7. In Review mode (any \<open>type\<close> other than "generate"), start() opens the transport
  with the interviewer configuration and the single variable \<open>questions\<close>, whose value
  is each question prefixed with "- ", the questions separated by newlines, and the
  empty string when the questions are absent or empty.
\<close>

theorem start_review_opens_interviewer:
  assumes "type p \<noteq> ''generate''" and "mounted s"
  shows "calls (step p Start s) = calls s @
           [VapiStart interviewer
              [(''questions'', Some (case questions p of None \<Rightarrow> [] | Some list \<Rightarrow> bulleted list))]]"
proof -
  have "calls (step p Start s) = calls (handleCall p s)"
    using assms(2) by (simp add: rerender_calls handleCall_status)
  then show ?thesis
    using assms(1) by (simp add: handleCall_def call_def Let_def formattedQuestions_bulleted)
qed

theorem start_review_opens_interviewer_witness:
  "type reviewProps \<noteq> ''generate'' \<and> mounted (mount reviewProps)
   \<and> calls (step reviewProps Start (mount reviewProps)) =
       [VapiStart interviewer
          [(''questions'',
            Some (''- Tell me about yourself'' @ [CHR 0x0A] @ ''- Why this role?''))]]"
proof -
  have t: "type reviewProps \<noteq> ''generate''" by (simp add: reviewProps_def)
  have m: "mounted (mount reviewProps)" by (rule mount_mounted)
  have q: "questions reviewProps = Some [''Tell me about yourself'', ''Why this role?'']"
    by (simp add: reviewProps_def)
  from start_review_opens_interviewer [OF t m] t m
  show ?thesis by (simp add: q mount_state)
qed

text \<open>
  C2, as the code has it. start() has no state guard: in every status it sets the
  status to Connecting and opens one more transport session with the parameters of the
  mode. The one status-dependent protection is in the rendering: while the status is
  Active the button invokes stop(), in every other status it invokes start().
\<close>

theorem start_has_no_state_guard:
  assumes "mounted s"
  shows "callStatus (step p Start s) = CONNECTING
       \<and> calls (step p Start s) = calls s @
           [if type p = ''generate''
            then VapiStart NEXT_PUBLIC_VAPI_WORKFLOW_ID
                   [(''username'', Some (userName p)), (''userid'', userId p)]
            else VapiStart interviewer [(''questions'', Some (formattedQuestions (questions p)))]]
       \<and> step p Click s = (if callStatus s = ACTIVE then step p Stop s else step p Start s)"
proof -
  have "calls (step p Start s) = calls (handleCall p s)"
    using assms by (simp add: rerender_calls handleCall_status)
  then show ?thesis
    using assms by (simp add: rerender_frame handleCall_status onClick_def)
       (simp add: handleCall_def call_def Let_def)
qed

theorem start_has_no_state_guard_witness:
  "mounted (run reviewProps [Click] (mount reviewProps))
   \<and> callStatus (step reviewProps Start (run reviewProps [Click] (mount reviewProps))) = CONNECTING
   \<and> length (calls (step reviewProps Start (run reviewProps [Click] (mount reviewProps)))) = 2"
proof -
  have m: "mounted (run reviewProps [Click] (mount reviewProps))"
    by (simp add: mount_mounted rerender_frame handler_frame)
  have c: "length (calls (run reviewProps [Click] (mount reviewProps))) = 1"
    by (simp add: mount_mounted onClick_def mount_state rerender_calls handleCall_status)
       (simp add: handleCall_def call_def Let_def mount_state)
  from start_has_no_state_guard [OF m, of reviewProps] m c
  show ?thesis by simp
qed

text \<open>
  C2 as stated fails: start() while Connecting opens a second transport session, and
  start() while Finished moves the status back to Connecting.
\<close>

theorem start_while_not_idle_counterexample:
  "callStatus (run reviewProps [Click] (mount reviewProps)) = CONNECTING
   \<and> opened (calls (run reviewProps [Click] (mount reviewProps))) =
       [VapiStart interviewer
          [(''questions'', Some (''- Tell me about yourself'' @ [CHR 0x0A] @ ''- Why this role?''))]]
   \<and> opened (calls (step reviewProps Start (run reviewProps [Click] (mount reviewProps)))) =
       [VapiStart interviewer
          [(''questions'', Some (''- Tell me about yourself'' @ [CHR 0x0A] @ ''- Why this role?''))],
        VapiStart interviewer
          [(''questions'', Some (''- Tell me about yourself'' @ [CHR 0x0A] @ ''- Why this role?''))]]
   \<and> callStatus (run reviewProps [Click, Transport CallStart, Click] (mount reviewProps)) = FINISHED
   \<and> callStatus (step reviewProps Start
         (run reviewProps [Click, Transport CallStart, Click] (mount reviewProps))) = CONNECTING"
  by code_simp

section \<open>Status transitions\<close>

text \<open>
  C1, as the code has it. On a mounted, subscribed component a step moves the status
  backward along Idle, Connecting, Active, Finished in exactly these cases: start() is
  invoked while the status is Active or Finished (it becomes Connecting again; the
  rendered button invokes start() in every status but Active, so a click does this from
  Finished), or a call-start event arrives while the status is Finished (it becomes
  Active again). Every other action or event, in every status, leaves the status where
  it is or moves it forward.
\<close>

theorem backward_steps_are_restarts:
  assumes "mounted s" and "subscribed s"
  shows "(rank (callStatus (step p e s)) < rank (callStatus s)) =
           ((e = Start \<and> (callStatus s = ACTIVE \<or> callStatus s = FINISHED))
            \<or> (e = Click \<and> callStatus s = FINISHED)
            \<or> (e = Transport CallStart \<and> callStatus s = FINISHED))"
proof (cases e)
  case Start
  then show ?thesis using assms(1)
    by (cases "callStatus s") (simp_all add: rerender_frame handleCall_status)
next
  case Stop
  then show ?thesis using assms(1)
    by (cases "callStatus s") (simp_all add: rerender_frame handleDisconnect_def call_def)
next
  case Click
  then show ?thesis using assms(1)
    by (cases "callStatus s")
       (simp_all add: rerender_frame onClick_def handleCall_status handleDisconnect_def call_def)
next
  case (Transport v)
  then show ?thesis using assms(2)
    by (cases v; cases "callStatus s")
       (simp_all add: rerender_frame emit_subscribed call_def)
next
  case (Resolved r)
  then show ?thesis by (simp add: handler_frame)
next
  case Unmount
  then show ?thesis by (simp add: cleanup_def vapi_off_def)
qed

theorem backward_steps_are_restarts_witness:
  "mounted (run reviewProps [Click, Transport CallStart, Click] (mount reviewProps))
   \<and> subscribed (run reviewProps [Click, Transport CallStart, Click] (mount reviewProps))
   \<and> rank (callStatus (step reviewProps Click
           (run reviewProps [Click, Transport CallStart, Click] (mount reviewProps))))
       < rank (callStatus (run reviewProps [Click, Transport CallStart, Click]
           (mount reviewProps)))
   \<and> \<not> rank (callStatus (step reviewProps (Transport CallEnd)
           (run reviewProps [Click, Transport CallStart, Click] (mount reviewProps))))
       < rank (callStatus (run reviewProps [Click, Transport CallStart, Click]
           (mount reviewProps)))"
proof -
  have m: "mounted (run reviewProps [Click, Transport CallStart, Click] (mount reviewProps))"
    by code_simp
  have sub: "subscribed (run reviewProps [Click, Transport CallStart, Click]
      (mount reviewProps))"
    by (rule run_subscribed) (simp, rule mount_subscribed)
  have fin: "callStatus (run reviewProps [Click, Transport CallStart, Click]
      (mount reviewProps)) = FINISHED"
    by code_simp
  from backward_steps_are_restarts [OF m sub, of reviewProps Click]
       backward_steps_are_restarts [OF m sub, of reviewProps "Transport CallEnd"] m sub fin
  show ?thesis by simp
qed

text \<open>
  C1 as stated fails: after the session has finished, a click on the button (rendered as
  the Call button again) moves the status back to Connecting, and a call-start event
  arriving when the status is Finished moves it back to Active.
\<close>

theorem status_moves_backward_counterexample:
  "statuses reviewProps [Click, Transport CallStart, Click, Click, Transport CallEnd,
       Transport CallStart] (mount reviewProps)
     = [INACTIVE, CONNECTING, ACTIVE, FINISHED, CONNECTING, FINISHED, ACTIVE]"
  by code_simp

section \<open>Termination handling\<close>

lemma navigations_append: "navigations (cs @ ds) = navigations cs @ navigations ds"
  by (induction cs rule: navigations.induct) simp_all

lemma submissions_append: "submissions (cs @ ds) = submissions cs @ submissions ds"
  by (induction cs rule: submissions.induct) simp_all

lemma quiet_refl: "quiet s s"
  by (simp add: quiet_def)

lemma quiet_trans: "quiet s h \<Longrightarrow> quiet h k \<Longrightarrow> quiet s k"
  by (simp add: quiet_def)

lemma runHandler_quiet: "quiet s (runHandler h e s)"
  by (cases "(h, e, s)" rule: runHandler.cases)
     (simp_all add: quiet_def call_def navigations_append submissions_append)

lemma dispatch_quiet: "quiet s (dispatch ls e s)"
proof (induction ls arbitrary: s)
  case Nil
  show ?case by (simp add: quiet_refl)
next
  case (Cons a ls)
  obtain name h where a: "a = (name, h)" by (cases a)
  have "quiet s (if name = eventName e then runHandler h e s else s)"
    by (simp add: runHandler_quiet quiet_refl)
  then show ?case unfolding a dispatch.simps
    by (rule quiet_trans) (rule Cons.IH)
qed

lemma handlers_quiet:
  "quiet s (handleCall p s)" "quiet s (handleDisconnect s)" "quiet s (onClick p s)"
  "quiet s (emit e s)"
  by (simp_all add: quiet_def handleCall_def handleDisconnect_def onClick_def call_def Let_def
        navigations_append submissions_append dispatch_quiet [unfolded quiet_def] emit_def)

lemma completionEffect_calls:
  "navigations (calls (completionEffect p s)) = navigations (calls s)
     @ (if callStatus s = FINISHED \<and> type p = ''generate'' then [''/''] else [])"
  "submissions (calls (completionEffect p s)) = submissions (calls s)
     @ (if callStatus s = FINISHED \<and> type p \<noteq> ''generate''
        then [\<lparr>p_interviewId = interviewId p, p_userId = userId p,
               p_transcript = messages s, p_feedbackId = feedbackId p\<rparr>] else [])"
  "pending (completionEffect p s) = pending s
     + (if callStatus s = FINISHED \<and> type p \<noteq> ''generate'' then 1 else 0)"
  by (simp_all add: completionEffect_def handleGenerateFeedback_def call_def Let_def
        navigations_append submissions_append)

lemma step_handled:
  "step p Start s = rerender p s (handled p Start s)"
  "step p Stop s = rerender p s (handled p Stop s)"
  "step p Click s = rerender p s (handled p Click s)"
  "step p (Transport v) s = rerender p s (handled p (Transport v) s)"
  by (simp_all add: rerender_same)

lemma handled_quiet: "quiet s (handled p e s)"
  by (cases e) (simp_all add: handlers_quiet quiet_refl)

lemma fired_rerender:
  "fired p (rerender p s h) = fired p h
     + (if callStatus h = FINISHED \<and> (callStatus h \<noteq> callStatus s \<or> messages h \<noteq> messages s)
        then 1 else 0)"
  by (simp add: fired_def rerender_def completionEffect_calls)

lemma fired_quiet: "quiet s h \<Longrightarrow> fired p h = fired p s"
  by (simp add: fired_def quiet_def)

lemma generate_step_pending:
  assumes "type p = ''generate''" and "pending s = 0"
  shows "pending (step p e s) = 0"
proof (cases e)
  case (Resolved r)
  then show ?thesis using assms(2) by simp
next
  case Unmount
  then show ?thesis using assms(2) by (simp add: cleanup_def vapi_off_def)
next
  case Start
  then have "step p e s = rerender p s (handled p e s)" by (simp only: step_handled)
  then show ?thesis using assms handled_quiet [of s p e]
    by (simp add: rerender_def completionEffect_calls quiet_def)
next
  case Stop
  then have "step p e s = rerender p s (handled p e s)" by (simp only: step_handled)
  then show ?thesis using assms handled_quiet [of s p e]
    by (simp add: rerender_def completionEffect_calls quiet_def)
next
  case Click
  then have "step p e s = rerender p s (handled p e s)" by (simp only: step_handled)
  then show ?thesis using assms handled_quiet [of s p e]
    by (simp add: rerender_def completionEffect_calls quiet_def)
next
  case (Transport v)
  then have "step p e s = rerender p s (handled p e s)" by (simp only: step_handled)
  then show ?thesis using assms handled_quiet [of s p e]
    by (simp add: rerender_def completionEffect_calls quiet_def)
qed

lemma generate_nothing_pending:
  "type p = ''generate'' \<Longrightarrow> pending s = 0 \<Longrightarrow> pending (run p es s) = 0"
  by (induction es arbitrary: s) (simp_all add: generate_step_pending)

text \<open>
  Every state a run reaches from mounting satisfies the hypothesis of the theorem on
  commits below.
\<close>

lemma reachable_may_fire:
  "type p \<noteq> ''generate'' \<or> pending (run p es (mount p)) = 0"
  by (cases "type p = ''generate''") (simp_all add: generate_nothing_pending mount_state)

lemma handledIn_quiet: "quiet h (handledIn p r e h)"
  by (cases e) (simp_all add: handlers_quiet quiet_refl)

lemma handledBatch_quiet: "quiet h (handledBatch p r es h)"
proof (induction es arbitrary: h)
  case Nil
  show ?case by (simp add: quiet_refl)
next
  case (Cons e es)
  have "quiet h (handledIn p r e h)" by (rule handledIn_quiet)
  then show ?case unfolding handledBatch.simps
    by (rule quiet_trans) (rule Cons.IH)
qed

text \<open>A step of an action or a transport event is the commit of that one event.\<close>

lemma step_commit:
  "step p Start s = commit p [Start] s"
  "step p Stop s = commit p [Stop] s"
  "step p Click s = commit p [Click] s"
  "step p (Transport v) s = commit p [Transport v] s"
  by (simp_all add: commit_def onClick_def rerender_same)

text \<open>
  C4, as the code has it. The termination side effect (the push of the home path in
  Generate mode, the submission to the feedback gateway otherwise) is not limited to
  one firing: it fires on exactly those commits that end with the status Finished and
  changed the status or the transcript. So it fires on the commit on which the status
  becomes Finished, and again on every later commit before which a final transcript
  was appended while the status is Finished, once per commit however many messages
  the batch appended. A commit that changes neither the status nor the transcript, a
  gateway resolution and unmounting do not fire it. (In Generate mode no feedback call
  is ever awaited, which is the hypothesis; every reachable state satisfies it.)
\<close>

theorem termination_effect_fires_once_per_commit:
  assumes "type p \<noteq> ''generate'' \<or> pending s = 0"
  shows "fired p (commit p es s) = fired p s
           + (if callStatus (commit p es s) = FINISHED
                 \<and> (callStatus s \<noteq> FINISHED \<or> messages (commit p es s) \<noteq> messages s)
              then 1 else 0)
       \<and> fired p (step p (Resolved r) s) = fired p s
       \<and> fired p (step p Unmount s) = fired p s"
proof -
  have "fired p (commit p es s) = fired p s
           + (if callStatus (commit p es s) = FINISHED
                 \<and> (callStatus s \<noteq> FINISHED \<or> messages (commit p es s) \<noteq> messages s)
              then 1 else 0)"
    unfolding commit_def
    by (auto simp add: fired_rerender fired_quiet [OF handledBatch_quiet] rerender_frame)
  moreover have "fired p (step p (Resolved r) s) = fired p s"
    using assms
    by (auto simp add: fired_def feedbackDone_def call_def navigations_append
          submissions_append)
  moreover have "fired p (step p Unmount s) = fired p s"
    by (simp add: fired_def cleanup_def vapi_off_def)
  ultimately show ?thesis by simp
qed

theorem termination_effect_fires_once_per_commit_witness:
  "fired reviewProps (run reviewProps [Click, Transport CallStart, Click]
       (mount reviewProps)) = 1
   \<and> fired reviewProps (commit reviewProps
       [Transport (MessageEvent finalHi), Transport (MessageEvent finalHello)]
       (run reviewProps [Click, Transport CallStart, Click] (mount reviewProps))) = 2
   \<and> fired reviewProps (commit reviewProps
       [Transport (MessageEvent partialHi), Transport SpeechStart, Transport CallEnd]
       (run reviewProps [Click, Transport CallStart, Click] (mount reviewProps))) = 1"
proof -
  let ?s = "run reviewProps [Click, Transport CallStart, Click] (mount reviewProps)"
  let ?two = "[Transport (MessageEvent finalHi), Transport (MessageEvent finalHello)]"
  let ?none = "[Transport (MessageEvent partialHi), Transport SpeechStart, Transport CallEnd]"
  have t: "type reviewProps \<noteq> ''generate'' \<or> pending ?s = 0"
    by (simp add: reviewProps_def)
  have f: "fired reviewProps ?s = 1" "callStatus ?s = FINISHED" "messages ?s = []"
    by code_simp+
  have m: "messages (commit reviewProps ?two ?s)
             = [\<lparr>role = User, content = ''Hi''\<rparr>, \<lparr>role = Assistant, content = ''Hello''\<rparr>]"
          "callStatus (commit reviewProps ?two ?s) = FINISHED"
          "messages (commit reviewProps ?none ?s) = []"
    by code_simp+
  from termination_effect_fires_once_per_commit [OF t, of ?two]
       termination_effect_fires_once_per_commit [OF t, of ?none] f m
  show ?thesis by simp
qed

text \<open>
  Two final transcripts batched into one commit after the session finished: the gateway
  has been called twice in all, first with the empty transcript, then with both
  utterances.
\<close>

lemma batched_finals_submit_once:
  "map (\<lambda>params. length (p_transcript params))
     (submissions (calls (commit reviewProps
        [Transport (MessageEvent finalHi), Transport (MessageEvent finalHello)]
        (run reviewProps [Click, Transport CallStart, Click] (mount reviewProps))))) = [0, 2]"
  by code_simp

text \<open>
  C4 as stated fails: the status becomes Finished once, a final transcript arrives
  afterwards and is committed, and the side effect has fired twice.
\<close>

theorem termination_fires_twice_counterexample:
  "statuses reviewProps [Click, Transport CallStart, Click, Transport (MessageEvent finalHi)]
       (mount reviewProps) = [INACTIVE, CONNECTING, ACTIVE, FINISHED, FINISHED]
   \<and> fired reviewProps (run reviewProps [Click, Transport CallStart, Click]
       (mount reviewProps)) = 1
   \<and> fired reviewProps (run reviewProps
       [Click, Transport CallStart, Click, Transport (MessageEvent finalHi)]
       (mount reviewProps)) = 2
   \<and> fired generateProps (run generateProps
       [Click, Transport CallStart, Transport CallEnd, Transport (MessageEvent finalHi)]
       (mount generateProps)) = 2"
  by code_simp


lemma generate_never_submits:
  assumes "type p = ''generate''"
  shows "submissions (calls (step p e s)) = submissions (calls s)"
proof (cases e)
  case (Resolved r)
  then show ?thesis
    by (simp add: feedbackDone_def call_def submissions_append)
next
  case Unmount
  then show ?thesis by (simp add: cleanup_def vapi_off_def)
next
  case Start
  then have "step p e s = rerender p s (handled p e s)" by (simp only: step_handled)
  then show ?thesis using assms handled_quiet [of s p e]
    by (simp add: rerender_def completionEffect_calls quiet_def)
next
  case Stop
  then have "step p e s = rerender p s (handled p e s)" by (simp only: step_handled)
  then show ?thesis using assms handled_quiet [of s p e]
    by (simp add: rerender_def completionEffect_calls quiet_def)
next
  case Click
  then have "step p e s = rerender p s (handled p e s)" by (simp only: step_handled)
  then show ?thesis using assms handled_quiet [of s p e]
    by (simp add: rerender_def completionEffect_calls quiet_def)
next
  case (Transport v)
  then have "step p e s = rerender p s (handled p e s)" by (simp only: step_handled)
  then show ?thesis using assms handled_quiet [of s p e]
    by (simp add: rerender_def completionEffect_calls quiet_def)
qed

lemma generate_run_never_submits:
  "type p = ''generate'' \<Longrightarrow> submissions (calls (run p es s)) = submissions (calls s)"
  by (induction es arbitrary: s) (simp_all add: generate_never_submits)

lemma entering_finished:
  assumes "callStatus s \<noteq> FINISHED" and "callStatus (step p e s) = FINISHED"
  shows "step p e s = completionEffect p (handled p e s) \<and> callStatus (handled p e s) = FINISHED"
proof -
  have ne: "callStatus (step p e s) \<noteq> callStatus s" using assms by simp
  have "step p e s = rerender p s (handled p e s)"
  proof (cases e)
    case (Resolved r)
    with ne show ?thesis by (simp add: handler_frame split: if_splits)
  next
    case Unmount
    with ne show ?thesis by (simp add: cleanup_def vapi_off_def split: if_splits)
  qed (simp_all only: step_handled)
  moreover from this assms(2) have fin: "callStatus (handled p e s) = FINISHED"
    by (simp add: rerender_frame)
  ultimately show ?thesis using assms(1) by (simp add: rerender_def)
qed

text \<open>
  C6. In Generate mode no run of the component ever submits to the feedback gateway,
  and a step on which the status becomes Finished adds exactly one navigation signal,
  the home path.
\<close>

theorem generate_mode_exits_home_without_gateway:
  assumes "type p = ''generate''"
  shows "submissions (calls (run p es (mount p))) = []
       \<and> (callStatus s \<noteq> FINISHED \<and> callStatus (step p e s) = FINISHED \<longrightarrow>
            navigations (calls (step p e s)) = navigations (calls s) @ [''/'']
            \<and> submissions (calls (step p e s)) = submissions (calls s))"
proof -
  have "submissions (calls (run p es (mount p))) = []"
    using assms by (simp add: generate_run_never_submits mount_state)
  moreover
  { assume a: "callStatus s \<noteq> FINISHED" "callStatus (step p e s) = FINISHED"
    from entering_finished [OF a] handled_quiet [of s p e] assms
    have "navigations (calls (step p e s)) = navigations (calls s) @ [''/'']"
      by (simp add: completionEffect_calls quiet_def) }
  ultimately show ?thesis using assms by (simp add: generate_never_submits)
qed

theorem generate_mode_exits_home_without_gateway_witness:
  "type generateProps = ''generate''
   \<and> submissions (calls (run generateProps [Click, Transport CallStart, Transport CallEnd]
         (mount generateProps))) = []
   \<and> navigations (calls (step generateProps (Transport CallEnd)
         (run generateProps [Click, Transport CallStart] (mount generateProps)))) = [''/'']"
proof -
  let ?s = "run generateProps [Click, Transport CallStart] (mount generateProps)"
  have t: "type generateProps = ''generate''" by (simp add: generateProps_def)
  have a: "callStatus ?s \<noteq> FINISHED" "callStatus (step generateProps (Transport CallEnd) ?s) = FINISHED"
          "navigations (calls ?s) = []"
    by code_simp+
  from generate_mode_exits_home_without_gateway
         [OF t, of "[Click, Transport CallStart, Transport CallEnd]" ?s "Transport CallEnd"] t a
  show ?thesis by simp
qed

text \<open>
  C5. In Review mode (any \<open>type\<close> other than "generate"), the step on which the status
  becomes Finished submits the whole transcript to the feedback gateway. When the
  gateway answers, the component pushes the feedback view of the interview if and only
  if the answer has \<open>success\<close> true and an identifier (a non-empty one: the test is
  \<open>success && id\<close>); on every other answer it logs the failure and pushes the home
  path. Nothing is thrown: these are the only two outcomes.
\<close>

theorem review_finish_submits_then_navigates:
  assumes "type p \<noteq> ''generate''"
      and "callStatus s \<noteq> FINISHED" and "callStatus (step p e s) = FINISHED"
  shows "submissions (calls (step p e s)) = submissions (calls s) @
           [\<lparr>p_interviewId = interviewId p, p_userId = userId p,
             p_transcript = messages (step p e s), p_feedbackId = feedbackId p\<rparr>]
       \<and> calls (step p (Resolved r) (step p e s)) = calls (step p e s) @
           (if success r \<and> truthy (r_feedbackId r)
            then [RouterPush (''/interview/'' @ template (interviewId p) @ ''/feedback'')]
            else [ConsoleLog ''Error saving feedback'', RouterPush ''/''])"
proof -
  note ef = entering_finished [OF assms(2,3)]
  have sub: "submissions (calls (step p e s)) = submissions (calls s) @
           [\<lparr>p_interviewId = interviewId p, p_userId = userId p,
             p_transcript = messages (step p e s), p_feedbackId = feedbackId p\<rparr>]"
    using ef handled_quiet [of s p e] assms(1)
    by (simp add: completionEffect_calls completionEffect_frame quiet_def)
  have "pending (step p e s) > 0"
    using ef assms(1) by (simp add: completionEffect_calls)
  then have "calls (step p (Resolved r) (step p e s)) = calls (step p e s) @
           (if success r \<and> truthy (r_feedbackId r)
            then [RouterPush (''/interview/'' @ template (interviewId p) @ ''/feedback'')]
            else [ConsoleLog ''Error saving feedback'', RouterPush ''/''])"
    by (simp add: feedbackDone_def feedbackPath_def call_def)
  with sub show ?thesis by simp
qed

theorem review_finish_submits_then_navigates_witness:
  "navigations (calls (step reviewProps
       (Resolved \<lparr>success = True, r_feedbackId = Some ''abc''\<rparr>)
       (step reviewProps Stop (run reviewProps [Click, Transport CallStart] (mount reviewProps)))))
     = [''/interview/i7/feedback'']
   \<and> navigations (calls (step reviewProps
       (Resolved \<lparr>success = False, r_feedbackId = None\<rparr>)
       (step reviewProps Stop (run reviewProps [Click, Transport CallStart] (mount reviewProps)))))
     = [''/'']
   \<and> navigations (calls (step reviewProps
       (Resolved \<lparr>success = True, r_feedbackId = None\<rparr>)
       (step reviewProps Stop (run reviewProps [Click, Transport CallStart] (mount reviewProps)))))
     = [''/'']"
proof -
  let ?s = "run reviewProps [Click, Transport CallStart] (mount reviewProps)"
  have t: "type reviewProps \<noteq> ''generate''" by (simp add: reviewProps_def)
  have a: "callStatus ?s \<noteq> FINISHED" by code_simp
  have b: "callStatus (step reviewProps Stop ?s) = FINISHED" by code_simp
  have n: "navigations (calls (step reviewProps Stop ?s)) = []" by code_simp
  have i: "interviewId reviewProps = Some ''i7''" by (simp add: reviewProps_def)
  from review_finish_submits_then_navigates
         [OF t a b, of "\<lparr>success = True, r_feedbackId = Some ''abc''\<rparr>"]
       review_finish_submits_then_navigates
         [OF t a b, of "\<lparr>success = False, r_feedbackId = None\<rparr>"]
       review_finish_submits_then_navigates
         [OF t a b, of "\<lparr>success = True, r_feedbackId = None\<rparr>"] n i
  show ?thesis by (simp add: navigations_append)
qed

section \<open>The feedback gateway\<close>


lemma splitAt_not_Nil: "splitAt c s \<noteq> []"
  by (induction s) (simp_all split: list.splits)

lemma splitAt_segments: "seg \<in> set (splitAt c s) \<Longrightarrow> c \<notin> set seg"
proof (induction s arbitrary: seg)
  case Nil
  then show ?case by simp
next
  case (Cons x xs)
  show ?case
  proof (cases "x = c")
    case True
    with Cons show ?thesis by auto
  next
    case False
    obtain g gs where g: "splitAt c xs = g # gs"
      using splitAt_not_Nil [of c xs] by (cases "splitAt c xs") auto
    with Cons.prems False have "seg = x # g \<or> seg \<in> set gs" by simp
    moreover have "c \<notin> set g" using Cons.IH [of g] g by simp
    moreover have "seg \<in> set gs \<Longrightarrow> c \<notin> set seg" using Cons.IH [of seg] g by simp
    ultimately show ?thesis using False by auto
  qed
qed



lemma collectionDoc_Some:
  assumes "collectionDoc fid = Some segs"
  shows "segs \<noteq> []" and "last segs \<noteq> []" and "CHR ''/'' \<notin> set (last segs)"
proof -
  from assms have segs: "segs = filter (\<lambda>segment. segment \<noteq> []) (splitAt CHR ''/'' fid)"
    and ev: "even (Suc (length segs))"
    by (auto simp add: collectionDoc_def Let_def split: if_splits)
  from ev show ne: "segs \<noteq> []" by auto
  then have "last segs \<in> set segs" by simp
  then have "last segs \<noteq> [] \<and> last segs \<in> set (splitAt CHR ''/'' fid)"
    unfolding segs by auto
  then show "last segs \<noteq> []" and "CHR ''/'' \<notin> set (last segs)"
    by (auto dest: splitAt_segments)
qed

lemma createFeedback_cases:
  "createFeedback sv params db = (\<lparr>success = False, r_feedbackId = None\<rparr>, db)
   \<or> (\<exists>path object.
         generateObject sv (formattedTranscript (p_transcript params)) = Some object
         \<and> (if truthy (p_feedbackId params)
             then collectionDoc (the (p_feedbackId params)) else Some [autoId sv]) = Some path
         \<and> createFeedback sv params db =
            (\<lparr>success = True, r_feedbackId = Some (last path)\<rparr>,
             db(path \<mapsto> \<lparr>f_interviewId = p_interviewId params, f_userId = p_userId params,
                           f_object = object, createdAt = toISOString sv\<rparr>)))"
  by (auto simp add: createFeedback_def Let_def split: option.splits)

lemma createFeedback_identifier:
  "success (fst (createFeedback sv params db)) =
     (r_feedbackId (fst (createFeedback sv params db)) \<noteq> None)"
  using createFeedback_cases [of sv params db] by auto

lemma createFeedback_truthy:
  assumes "autoId sv \<noteq> []"
  shows "success (fst (createFeedback sv params db)) =
           truthy (r_feedbackId (fst (createFeedback sv params db)))"
proof -
  from createFeedback_cases [of sv params db] show ?thesis
  proof
    assume "createFeedback sv params db = (\<lparr>success = False, r_feedbackId = None\<rparr>, db)"
    then show ?thesis by simp
  next
    assume "\<exists>path object.
         generateObject sv (formattedTranscript (p_transcript params)) = Some object
         \<and> (if truthy (p_feedbackId params)
             then collectionDoc (the (p_feedbackId params)) else Some [autoId sv]) = Some path
         \<and> createFeedback sv params db =
            (\<lparr>success = True, r_feedbackId = Some (last path)\<rparr>,
             db(path \<mapsto> \<lparr>f_interviewId = p_interviewId params, f_userId = p_userId params,
                           f_object = object, createdAt = toISOString sv\<rparr>))"
    then obtain path object where
      path: "(if truthy (p_feedbackId params)
             then collectionDoc (the (p_feedbackId params)) else Some [autoId sv]) = Some path"
      and res: "fst (createFeedback sv params db) = \<lparr>success = True, r_feedbackId = Some (last path)\<rparr>"
      by auto
    have "last path \<noteq> []"
      using path assms by (auto split: if_splits dest: collectionDoc_Some(2))
    with res show ?thesis by simp
  qed
qed




text \<open>A path that does not name a document makes \<open>doc\<close> throw: the call fails.\<close>

lemma createFeedback_even_path_throws:
  "createFeedback healthy
        \<lparr>p_interviewId = Some ''i7'', p_userId = Some ''u1'', p_transcript = [],
          p_feedbackId = Some ''a/b''\<rparr> db
     = (\<lparr>success = False, r_feedbackId = None\<rparr>, db)"
proof -
  have "splitAt CHR ''/'' ''a/b'' = [''a'', ''b'']" by simp
  then have "collectionDoc ''a/b'' = None"
    by (simp add: collectionDoc_def)
  then show ?thesis
    by (simp add: createFeedback_def healthy_def Let_def)
qed

text \<open>
  The empty string does not pass the tests \<open>if (feedbackId)\<close> and \<open>success && id\<close>: it
  counts as no identifier, on both sides of the gateway.
\<close>

lemma createFeedback_empty_id:
  "fst (createFeedback healthy
        \<lparr>p_interviewId = Some ''i7'', p_userId = Some ''u1'', p_transcript = [],
          p_feedbackId = Some []\<rparr> Map.empty)
     = \<lparr>success = True, r_feedbackId = Some ''auto1''\<rparr>"
  by (simp add: createFeedback_def healthy_def Let_def)

lemma feedbackDone_empty_id:
  "calls (feedbackDone p \<lparr>success = True, r_feedbackId = Some []\<rparr> s) =
     calls s @ [ConsoleLog ''Error saving feedback'', RouterPush ''/'']"
  by (simp add: feedbackDone_def call_def)

end
